theory Spec2Isabelle
  imports Complex_Main
begin

section \<open>Exceptions\<close>

text \<open>
  The Python exceptions the documented code raises or catches.
  \<open>CancelledError\<close> is \<open>asyncio.CancelledError\<close>, raised by
  \<open>CancellationToken.check_cancelled_async\<close>; on the documented runtime (Python 3.11) it
  derives from \<open>BaseException\<close>, not from \<open>Exception\<close>.
  \<open>CancellationException\<close> is the class the streaming endpoint imports from the analysis
  engine (an \<open>Exception\<close> of the application). \<open>Exception\<close> stands for every other
  exception. The argument is \<open>str(e)\<close>.
\<close>

datatype py_exception = CancelledError | CancellationException string | Exception string

section \<open>CancellationToken (docs/deployment.md)\<close>

text \<open>
  \<open>time.time()\<close> is read from the clock; the reading is a parameter of type \<open>'t\<close>,
  since the code only stores it. \<open>_callbacks\<close> holds the registered callbacks (the
  constructor leaves it empty, and nothing shown registers one); \<open>_lock\<close> is never taken
  by the token's own methods and is not part of the state.
\<close>

record 't CancellationToken =
  analysis_id :: string
  is_cancelled :: bool
  created_at :: 't
  cancelled_at :: "'t option"

definition new_token :: "'t \<Rightarrow> string \<Rightarrow> 't CancellationToken" where
  "new_token now aid =
     \<lparr>analysis_id = aid, is_cancelled = False, created_at = now, cancelled_at = None\<rparr>"

text \<open>
  \<open>cancel\<close>: the method \<open>_trigger_callbacks\<close> it calls last is not among the sources;
  it is the parameter \<open>trigger\<close>, which returns normally (\<open>None\<close>) or raises. The two
  assignments have happened when it runs, so the token is updated either way.
\<close>

definition cancel ::
  "('t CancellationToken \<Rightarrow> py_exception option) \<Rightarrow> 't \<Rightarrow> 't CancellationToken
     \<Rightarrow> py_exception option \<times> 't CancellationToken" where
  "cancel trigger now tok =
     (if \<not> is_cancelled tok
      then (let tok' = tok\<lparr>is_cancelled := True, cancelled_at := Some now\<rparr>
            in (trigger tok', tok'))
      else (None, tok))"


section \<open>CancellationManager (docs/deployment.md)\<close>

text \<open>
  The manager's state is the dictionary \<open>_tokens\<close>. Each method runs under the manager's
  lock, so a call is one atomic step on the dictionary. The class has exactly the two
  methods below.
\<close>

type_synonym 't tokens = "string \<rightharpoonup> 't CancellationToken"

definition manager_init :: "'t tokens" where
  "manager_init = Map.empty"

definition create_token :: "'t \<Rightarrow> string \<Rightarrow> 't tokens \<Rightarrow> 't CancellationToken \<times> 't tokens" where
  "create_token now aid m = (let token = new_token now aid in (token, m(aid \<mapsto> token)))"

text \<open>
  \<open>cancel_analysis\<close> returns \<open>Inr b\<close> for the boolean it returns and \<open>Inl e\<close> when
  \<open>token.cancel()\<close> raised. A token object is always truthy, so \<open>if token and ...\<close> tests
  presence.
\<close>

definition cancel_analysis ::
  "('t CancellationToken \<Rightarrow> py_exception option) \<Rightarrow> 't \<Rightarrow> string \<Rightarrow> 't tokens
     \<Rightarrow> (py_exception + bool) \<times> 't tokens" where
  "cancel_analysis trigger now aid m =
     (case m aid of
        Some token \<Rightarrow>
          (if \<not> is_cancelled token
           then (case cancel trigger now token of
                   (None, token') \<Rightarrow> (Inr True, m(aid \<mapsto> token'))
                 | (Some e, token') \<Rightarrow> (Inl e, m(aid \<mapsto> token')))
           else (Inr False, m))
      | None \<Rightarrow> (Inr False, m))"

text \<open>
  The cancel endpoint \<open>POST /api/ai/cancel/analysis_id\<close>: 200 with the id and
  \<open>datetime.utcnow()\<close> (the parameter \<open>utcnow\<close>) on success, 404 when the manager
  returned false, 500 with \<open>str(e)\<close> when an \<open>Exception\<close> was raised. An exception
  outside \<open>Exception\<close> leaves the handler.
\<close>

datatype 'u cancel_response =
    CancelOk string 'u
  | CancelNotFound string
  | CancelFailed string
  | CancelPropagated py_exception

definition cancel_analysis_route ::
  "('t CancellationToken \<Rightarrow> py_exception option) \<Rightarrow> 't \<Rightarrow> 'u \<Rightarrow> string \<Rightarrow> 't tokens
     \<Rightarrow> 'u cancel_response \<times> 't tokens" where
  "cancel_analysis_route trigger now utcnow aid m =
     (case cancel_analysis trigger now aid m of
        (Inr success, m') \<Rightarrow>
          (if success then (CancelOk aid utcnow, m')
           else (CancelNotFound ''Analysis not found or already completed'', m'))
      | (Inl (Exception msg), m') \<Rightarrow> (CancelFailed msg, m')
      | (Inl (CancellationException msg), m') \<Rightarrow> (CancelFailed msg, m')
      | (Inl CancelledError, m') \<Rightarrow> (CancelPropagated CancelledError, m'))"

text \<open>
  The manager's whole interface, as a type of calls, and a run of any sequence of them.
\<close>

datatype 't manager_op = CreateToken 't string | CancelAnalysis 't string

fun run_op ::
  "('t CancellationToken \<Rightarrow> py_exception option) \<Rightarrow> 't manager_op \<Rightarrow> 't tokens \<Rightarrow> 't tokens" where
  "run_op trigger (CreateToken now aid) m = snd (create_token now aid m)"
| "run_op trigger (CancelAnalysis now aid) m = snd (cancel_analysis trigger now aid m)"

fun run_ops ::
  "('t CancellationToken \<Rightarrow> py_exception option) \<Rightarrow> 't manager_op list \<Rightarrow> 't tokens \<Rightarrow> 't tokens" where
  "run_ops trigger [] m = m"
| "run_ops trigger (op # ops) m = run_ops trigger ops (run_op trigger op m)"

section \<open>split_log (docs/troubleshooting.md)\<close>

text \<open>
  Python's \<open>range(start, stop, step)\<close> as the list it iterates over: a zero step raises
  \<open>ValueError\<close>; otherwise the length is the one CPython computes.
\<close>

definition range_len :: "int \<Rightarrow> int \<Rightarrow> int \<Rightarrow> nat" where
  "range_len start stop step =
     (if 0 < step then (if start < stop then nat ((stop - start - 1) div step + 1) else 0)
      else (if stop < start then nat ((start - stop - 1) div (- step) + 1) else 0))"

definition py_range :: "int \<Rightarrow> int \<Rightarrow> int \<Rightarrow> py_exception + int list" where
  "py_range start stop step =
     (if step = 0 then Inl (Exception ''range() arg 3 must not be zero'')
      else Inr (map (\<lambda>k. start + int k * step) [0..<range_len start stop step]))"

text \<open>
  Python's slice \<open>xs[a:b]\<close>: a negative index counts from the end, and both indices
  are clamped to \<open>0..len(xs)\<close>.
\<close>

definition slice_index :: "int \<Rightarrow> int \<Rightarrow> int" where
  "slice_index n i = (if i < 0 then max (i + n) 0 else min i n)"

definition py_slice :: "'a list \<Rightarrow> int \<Rightarrow> int \<Rightarrow> 'a list" where
  "py_slice xs a b =
     (let n = int (length xs); lo = slice_index n a; hi = slice_index n b
      in take (nat (hi - lo)) (drop (nat lo) xs))"

definition split_log :: "string \<Rightarrow> int \<Rightarrow> py_exception + string list" where
  "split_log content chunk_size =
     (case py_range 0 (int (length content)) chunk_size of
        Inl e \<Rightarrow> Inl e
      | Inr starts \<Rightarrow> Inr (map (\<lambda>i. py_slice content i (i + chunk_size)) starts))"

definition split_log_default :: "string \<Rightarrow> py_exception + string list" where
  "split_log_default content = split_log content 100000"

section \<open>StreamingAnalyzer (docs/deployment.md)\<close>

record StreamingAnalyzer =
  check_interval :: int
  chars_since_check :: int

definition StreamingAnalyzer_init :: StreamingAnalyzer where
  "StreamingAnalyzer_init = \<lparr>check_interval = 100, chars_since_check = 0\<rparr>"

text \<open>
  One iteration of the loop of \<open>stream_with_cancellation\<close> on a fragment \<open>chunk\<close>.
  The methods \<open>ai_stream\<close> and \<open>check_cancelled\<close> are not among the sources: the
  fragments are a parameter, and \<open>chk\<close> is what \<open>check_cancelled\<close> would do if called
  at this moment (\<open>None\<close>: it returns; \<open>Some e\<close>: it raises \<open>e\<close>). Its value is
  discarded by the caller, so raising is the only way it can stop the stream. The result tells
  whether the check was called, and the analyzer after the iteration.
\<close>

datatype step_result =
    StepYield bool StreamingAnalyzer
  | StepRaise py_exception StreamingAnalyzer

definition stream_step :: "StreamingAnalyzer \<Rightarrow> string \<Rightarrow> py_exception option \<Rightarrow> step_result" where
  "stream_step s chunk chk =
     (let s1 = s\<lparr>chars_since_check := chars_since_check s + int (length chunk)\<rparr>
      in if chars_since_check s1 \<ge> check_interval s1
         then (case chk of
                 Some e \<Rightarrow> StepRaise e s1
               | None \<Rightarrow> StepYield True (s1\<lparr>chars_since_check := 0\<rparr>))
         else StepYield False s1)"

datatype stream_action = Checked | Yielded string

text \<open>
  The whole generator: the actions in order (a \<open>Checked\<close> for every call of
  \<open>check_cancelled\<close>, a \<open>Yielded\<close> for every fragment passed on), the exception that
  ended it if one did, and the analyzer at the end.
\<close>

fun stream_with_cancellation ::
  "StreamingAnalyzer \<Rightarrow> (string \<times> py_exception option) list
     \<Rightarrow> stream_action list \<times> py_exception option \<times> StreamingAnalyzer" where
  "stream_with_cancellation s [] = ([], None, s)"
| "stream_with_cancellation s ((chunk, chk) # rest) =
     (case stream_step s chunk chk of
        StepRaise e s' \<Rightarrow> ([Checked], Some e, s')
      | StepYield checked s' \<Rightarrow>
          (case stream_with_cancellation s' rest of
             (acts, r, s'') \<Rightarrow>
               ((if checked then [Checked] else []) @ Yielded chunk # acts, r, s'')))"

section \<open>The streaming endpoint (docs/deployment.md)\<close>

record progress =
  progress_percentage :: int
  current_chunk :: int
  total_chunks :: int
  input_tokens :: int
  output_tokens :: int

datatype event =
    Start string
  | Content string
  | Progress progress
  | Complete
  | Cancelled
  | Error string

text \<open>
  The analysis engine (\<open>src.core.engine\<close>) is not among the sources. What it does on one
  call is a parameter: the fragments its asynchronous generator yields, each with what
  \<open>engine.get_status()\<close> gives right after it (it raises, or returns a dictionary with or
  without the key \<open>api_usage\<close>, whose two counters may be missing), and how the generator
  ends. The engine's stream is taken to be finite, as a provider's stream is: it yields
  finitely many fragments and then stops or raises.
\<close>

record api_usage =
  api_input_tokens :: "int option"
  api_output_tokens :: "int option"

datatype status_result = StatusRaises py_exception | Status "api_usage option"

datatype stream_end = StopAsyncIteration | Raises py_exception

record engine_run =
  chunks :: "(string \<times> status_result) list"
  ending :: stream_end

text \<open>
  The enumerations \<open>AnalysisMode\<close> and \<open>ModelProvider\<close> (\<open>src.config.base\<close>) are
  not among the sources; their values are parameters. Constructing one from a string that is
  not a value raises \<open>ValueError\<close>.
\<close>

record config_base =
  AnalysisMode_values :: "string list"
  ModelProvider_values :: "string list"

text \<open>
  Python's \<open>repr\<close> of a \<open>str\<close>, which the \<open>ValueError\<close> of an enumeration puts in its
  message: double quotes when the value holds a single quote and no double quote, single
  quotes otherwise; a backslash, the enclosing quote, newline, carriage return and tab are
  escaped with a backslash, and any other ASCII control character as \<open>\xNN\<close>. A
  \<open>char\<close> here is a byte; bytes from 128 on are the UTF-8 bytes of a character beyond
  ASCII and are kept as they are.
\<close>

definition hex_digit :: "nat \<Rightarrow> char" where
  "hex_digit n = ''0123456789abcdef'' ! (n mod 16)"

definition repr_char :: "char \<Rightarrow> char \<Rightarrow> string" where
  "repr_char quote c =
     (if c = CHR 0x5C then [CHR 0x5C, CHR 0x5C]
      else if c = quote then [CHR 0x5C, quote]
      else if c = CHR 0x0A then [CHR 0x5C, CHR ''n'']
      else if c = CHR 0x0D then [CHR 0x5C, CHR ''r'']
      else if c = CHR 0x09 then [CHR 0x5C, CHR ''t'']
      else if (of_char c :: nat) < 32 \<or> c = CHR 0x7F
      then [CHR 0x5C, CHR ''x'', hex_digit (of_char c div 16), hex_digit (of_char c)]
      else [c])"

definition py_repr :: "string \<Rightarrow> string" where
  "py_repr v =
     (let quote = (if CHR 0x27 \<in> set v \<and> CHR 0x22 \<notin> set v then CHR 0x22 else CHR 0x27)
      in quote # concat (map (repr_char quote) v) @ [quote])"

definition not_a_valid :: "string \<Rightarrow> string \<Rightarrow> py_exception" where
  "not_a_valid v cls = Exception (py_repr v @ '' is not a valid '' @ cls)"

text \<open>
  The three \<open>except\<close> clauses of \<open>generate\<close>, in their order: the events the clause
  yields, and the exception that leaves the generator when no clause matches.
\<close>

fun handler :: "py_exception \<Rightarrow> event list \<times> py_exception option" where
  "handler (CancellationException msg) = ([Cancelled], None)"
| "handler (Exception msg) = ([Error msg], None)"
| "handler CancelledError = ([], Some CancelledError)"

definition or_zero :: "int option \<Rightarrow> int" where
  "or_zero v = (case v of Some n \<Rightarrow> n | None \<Rightarrow> 0)"

text \<open>
  The \<open>while True\<close> loop with what follows it, from a given \<open>chunk_count\<close>.
  \<open>total_chunks\<close> is assigned 1 before the loop and never again.
\<close>

fun consume :: "int \<Rightarrow> (string \<times> status_result) list \<Rightarrow> stream_end
    \<Rightarrow> event list \<times> py_exception option" where
  "consume chunk_count [] StopAsyncIteration = ([Complete], None)"
| "consume chunk_count [] (Raises e) = handler e"
| "consume chunk_count ((chunk, st) # rest) fin =
     (let chunk_count' = chunk_count + 1;
          progress = min (chunk_count' * 10) 90
      in case st of
           StatusRaises e \<Rightarrow> (Content chunk # fst (handler e), snd (handler e))
         | Status None \<Rightarrow>
             (Content chunk # fst (consume chunk_count' rest fin),
              snd (consume chunk_count' rest fin))
         | Status (Some u) \<Rightarrow>
             (Content chunk #
              Progress \<lparr>progress_percentage = progress, current_chunk = chunk_count',
                        total_chunks = 1,
                        input_tokens = or_zero (api_input_tokens u),
                        output_tokens = or_zero (api_output_tokens u)\<rparr> #
              fst (consume chunk_count' rest fin),
              snd (consume chunk_count' rest fin)))"

text \<open>
  \<open>generate\<close>: the events it yields, and the exception that leaves it, if any. With no
  engine configured it executes \<open>return analyze_with_cancellation_mock_impl(...)\<close>; inside
  a generator that ends the iteration, and the returned value is not yielded.
\<close>

definition generate ::
  "config_base \<Rightarrow> string \<Rightarrow> engine_run option \<Rightarrow> string \<Rightarrow> string
     \<Rightarrow> event list \<times> py_exception option" where
  "generate cfg aid engine mode provider =
     (let rest =
        (case engine of
           None \<Rightarrow> ([], None)
         | Some run \<Rightarrow>
             (if mode \<notin> set (AnalysisMode_values cfg)
              then handler (not_a_valid mode ''AnalysisMode'')
              else if provider \<noteq> [] \<and> provider \<notin> set (ModelProvider_values cfg)
              then handler (not_a_valid provider ''ModelProvider'')
              else consume 0 (chunks run) (ending run)))
      in (Start aid # fst rest, snd rest))"

text \<open>
  The route \<open>analyze_with_cancellation\<close>. The mock implementation is not among the
  sources; a response that is its return value is \<open>MockResponse\<close> with the arguments of the
  call.
\<close>

datatype response =
    JsonError nat string
  | MockResponse string string string string
  | EventStream "event list" "py_exception option"

definition analyze_with_cancellation ::
  "config_base \<Rightarrow> bool \<Rightarrow> string \<Rightarrow> engine_run option
     \<Rightarrow> string \<Rightarrow> string \<Rightarrow> string \<Rightarrow> string \<Rightarrow> response" where
  "analyze_with_cancellation cfg use_mock aid engine content log_type mode provider =
     (if content = [] then JsonError 400 ''Content is required''
      else if use_mock then MockResponse content log_type mode provider
      else (case generate cfg aid engine mode provider of
              (evs, r) \<Rightarrow> EventStream evs r))"

section \<open>The streaming analyzer (docs/deployment.md)\<close>






section \<open>Reading an event sequence\<close>

text \<open>Reading an event sequence.\<close>

fun is_start :: "event \<Rightarrow> bool" where
  "is_start (Start _) = True"
| "is_start _ = False"

fun is_content :: "event \<Rightarrow> bool" where
  "is_content (Content _) = True"
| "is_content _ = False"

fun is_terminal :: "event \<Rightarrow> bool" where
  "is_terminal Complete = True"
| "is_terminal Cancelled = True"
| "is_terminal (Error _) = True"
| "is_terminal _ = False"

fun is_error :: "event \<Rightarrow> bool" where
  "is_error (Error _) = True"
| "is_error _ = False"

definition count_content :: "event list \<Rightarrow> int" where
  "count_content evs = int (length (filter is_content evs))"

fun content_of :: "event list \<Rightarrow> string list" where
  "content_of [] = []"
| "content_of (Content c # evs) = c # content_of evs"
| "content_of (_ # evs) = content_of evs"

fun percentages :: "event list \<Rightarrow> int list" where
  "percentages [] = []"
| "percentages (Progress p # evs) = progress_percentage p # percentages evs"
| "percentages (_ # evs) = percentages evs"

text \<open>Whether \<open>get_status\<close> returned.\<close>

fun status_returns :: "status_result \<Rightarrow> bool" where
  "status_returns (Status _) = True"
| "status_returns (StatusRaises _) = False"

text \<open>
  The protocol of an event sequence: one \<open>Start\<close>, first; one terminal event, last.
\<close>

definition one_start_one_terminal :: "event list \<Rightarrow> bool" where
  "one_start_one_terminal evs =
     (evs \<noteq> [] \<and> is_start (hd evs) \<and> length (filter is_start evs) = 1 \<and>
      is_terminal (last evs) \<and> length (filter is_terminal evs) = 1)"

section \<open>The coordinator's token lifecycle, modelled from the spec\<close>

text \<open>
  The endpoint's \<open>generate\<close> draws its own id and hands it to the analysis engine; the
  token of an analysis is registered, checked and released by the engine
  (\<open>src.core.engine\<close>), which is not among the sources, and the manager above has no
  operation that removes an entry. This section models that missing part from the spec's
  sections 3, 4.1, 4.4 and 6; the registry is the dictionary of tokens above.
\<close>















text \<open>
  Modelled from the spec: \<open>QueryStatus\<close>. An analysis is running while its token is
  registered; afterwards the query reports the recorded outcome, or that the id is unknown.
\<close>

datatype outcome = Completed | WasCancelled | Failed



section \<open>Cancelling twice\<close>

lemma cancel_sets_flag: "is_cancelled (snd (cancel trigger now tok))"
  by (simp add: cancel_def Let_def)

lemma cancel_cancelled_id: "is_cancelled tok \<Longrightarrow> cancel trigger now tok = (None, tok)"
  by (simp add: cancel_def)

lemma cancel_analysis_absent: "m aid = None \<Longrightarrow> cancel_analysis trigger now aid m = (Inr False, m)"
  by (simp add: cancel_analysis_def)

lemma cancel_analysis_cancelled:
  "m aid = Some tok \<Longrightarrow> is_cancelled tok \<Longrightarrow> cancel_analysis trigger now aid m = (Inr False, m)"
  by (simp add: cancel_analysis_def)

lemma cancel_analysis_after:
  assumes "cancel_analysis trigger now aid m = (r, m')"
  shows "m' aid = None \<or> (\<exists>tok. m' aid = Some tok \<and> is_cancelled tok)"
proof (cases "m aid")
  case None
  with assms show ?thesis by (simp add: cancel_analysis_def)
next
  case (Some tok)
  show ?thesis
  proof (cases "is_cancelled tok")
    case True
    with Some assms show ?thesis by (auto simp: cancel_analysis_def)
  next
    case False
    with Some assms show ?thesis
      by (auto simp: cancel_analysis_def cancel_def Let_def split: option.splits)
  qed
qed


text \<open>
  C2. The cancelled flag of a token is monotonic: \<open>cancel\<close> always leaves it set, a
  cancelled token is not changed by \<open>cancel\<close>, and no \<open>cancel_analysis\<close> call (on any
  id) changes a registered token that is cancelled. When \<open>cancel_analysis\<close> is called a
  second time on the same id (whatever the first call returned, and whether or not its
  callbacks raised), the second call returns false without raising and leaves the registry as
  it was; in particular, when the first call returned true, the token still carries the
  timestamp of the first call.
\<close>

theorem cancel_twice_second_false:
  "is_cancelled (snd (cancel trigger now tok)) \<and>
   (is_cancelled tok \<longrightarrow> cancel trigger now tok = (None, tok)) \<and>
   (m other = Some tok \<and> is_cancelled tok \<longrightarrow>
      snd (cancel_analysis trigger now aid m) other = Some tok) \<and>
   (cancel_analysis trigger t_first aid m = (r_first, m_first) \<longrightarrow>
      cancel_analysis trigger' t_second aid m_first = (Inr False, m_first) \<and>
      (r_first = Inr True \<longrightarrow>
         (\<exists>tok_a. snd (cancel_analysis trigger' t_second aid m_first) aid = Some tok_a \<and>
            is_cancelled tok_a \<and> cancelled_at tok_a = Some t_first)))"
proof (intro conjI impI)
  show "is_cancelled (snd (cancel trigger now tok))"
    by (rule cancel_sets_flag)
next
  assume "is_cancelled tok"
  then show "cancel trigger now tok = (None, tok)"
    by (rule cancel_cancelled_id)
next
  assume a: "m other = Some tok \<and> is_cancelled tok"
  show "snd (cancel_analysis trigger now aid m) other = Some tok"
  proof (cases "other = aid")
    case True
    with a show ?thesis by (simp add: cancel_analysis_cancelled)
  next
    case False
    with a show ?thesis
      by (auto simp: cancel_analysis_def split: option.splits prod.splits)
  qed
next
  assume first: "cancel_analysis trigger t_first aid m = (r_first, m_first)"
  from cancel_analysis_after [OF first]
  show second: "cancel_analysis trigger' t_second aid m_first = (Inr False, m_first)"
    by (auto simp: cancel_analysis_absent cancel_analysis_cancelled)
  assume "r_first = Inr True"
  with first have "\<exists>tok_a. m_first aid = Some tok_a \<and> is_cancelled tok_a \<and> cancelled_at tok_a = Some t_first"
    by (auto simp: cancel_analysis_def cancel_def Let_def split: option.splits if_splits)
  with second
  show "\<exists>tok_a. snd (cancel_analysis trigger' t_second aid m_first) aid = Some tok_a \<and>
            is_cancelled tok_a \<and> cancelled_at tok_a = Some t_first"
    by simp
qed

theorem cancel_twice_second_false_witness:
  "fst (cancel_analysis (\<lambda>_. None) (5::nat) ''a1''
          (snd (create_token 0 ''a1'' manager_init))) = Inr True \<and>
   cancel_analysis (\<lambda>_. None) (9::nat) ''a1''
     (snd (cancel_analysis (\<lambda>_. None) 5 ''a1'' (snd (create_token 0 ''a1'' manager_init))))
     = (Inr False,
        snd (cancel_analysis (\<lambda>_. None) 5 ''a1'' (snd (create_token 0 ''a1'' manager_init)))) \<and>
   (\<exists>tok_a.
      snd (cancel_analysis (\<lambda>_. None) (9::nat) ''a1''
        (snd (cancel_analysis (\<lambda>_. None) 5 ''a1'' (snd (create_token 0 ''a1'' manager_init)))))
        ''a1'' = Some tok_a \<and>
      is_cancelled tok_a \<and> cancelled_at tok_a = Some 5) \<and>
   cancel (\<lambda>_. Some (Exception ''callback'')) (9::nat)
      \<lparr>analysis_id = ''a1'', is_cancelled = True, created_at = 0, cancelled_at = Some 5\<rparr>
     = (None,
        \<lparr>analysis_id = ''a1'', is_cancelled = True, created_at = 0, cancelled_at = Some 5\<rparr>) \<and>
   snd (cancel_analysis (\<lambda>_. None) (9::nat) ''b2''
          [''a1'' \<mapsto> \<lparr>analysis_id = ''a1'', is_cancelled = True, created_at = 0,
                        cancelled_at = Some 5\<rparr>,
           ''b2'' \<mapsto> new_token 3 ''b2'']) ''a1''
     = Some \<lparr>analysis_id = ''a1'', is_cancelled = True, created_at = 0, cancelled_at = Some 5\<rparr>"
proof -
  let ?start = "snd (create_token (0::nat) ''a1'' manager_init)"
  let ?c = "cancel_analysis (\<lambda>_. None) (5::nat) ''a1'' ?start"
  let ?tok = "\<lparr>analysis_id = ''a1'', is_cancelled = True, created_at = 0::nat,
      cancelled_at = Some (5::nat)\<rparr>"
  let ?reg = "[''a1'' \<mapsto> ?tok, ''b2'' \<mapsto> new_token 3 ''b2'']"
  have first: "?c = (fst ?c, snd ?c)"
    by simp
  have ret: "fst ?c = Inr True"
    by (simp add: cancel_analysis_def create_token_def new_token_def cancel_def manager_init_def
        Let_def)
  note T = cancel_twice_second_false [where trigger = "\<lambda>_. None" and t_first = 5
      and aid = "''a1''" and m = ?start and r_first = "fst ?c" and m_first = "snd ?c"
      and trigger' = "\<lambda>_. None" and t_second = 9]
  note T' = T [THEN conjunct2, THEN conjunct2, THEN conjunct2, THEN mp, OF first]
  have again: "cancel_analysis (\<lambda>_. None) 9 ''a1'' (snd ?c) = (Inr False, snd ?c)"
    by (rule T' [THEN conjunct1])
  from ret have stamp:
    "\<exists>tok_a. snd (cancel_analysis (\<lambda>_. None) 9 ''a1'' (snd ?c)) ''a1'' = Some tok_a \<and>
        is_cancelled tok_a \<and> cancelled_at tok_a = Some 5"
    by (rule T' [THEN conjunct2, THEN mp])
  have flag: "is_cancelled ?tok"
    by simp
  have reg: "?reg ''a1'' = Some ?tok \<and> is_cancelled ?tok"
    by simp
  note U = cancel_twice_second_false [where tok = ?tok and now = 9
      and trigger = "\<lambda>_. Some (Exception ''callback'')"]
  from flag have kept: "cancel (\<lambda>_. Some (Exception ''callback'')) 9 ?tok = (None, ?tok)"
    by (rule U [THEN conjunct2, THEN conjunct1, THEN mp])
  note V = cancel_twice_second_false [where tok = ?tok and now = 9 and trigger = "\<lambda>_. None"
      and m = ?reg and other = "''a1''" and aid = "''b2''"]
  from reg have other: "snd (cancel_analysis (\<lambda>_. None) 9 ''b2'' ?reg) ''a1'' = Some ?tok"
    by (rule V [THEN conjunct2, THEN conjunct2, THEN conjunct1, THEN mp])
  from ret again stamp kept other show ?thesis
    by (intro conjI)
qed

section \<open>Cancelling an unknown id\<close>

text \<open>
  C3. For an analysis id with no registered token, \<open>cancel_analysis\<close> returns false and
  raises nothing (the result is \<open>Inr False\<close>, and the registry is unchanged); the cancel
  endpoint then answers with its not-found response, not through its exception handler.
\<close>

theorem cancel_unknown_id_false:
  "m aid = None \<Longrightarrow>
     cancel_analysis trigger now aid m = (Inr False, m) \<and>
     cancel_analysis_route trigger now utcnow aid m =
       (CancelNotFound ''Analysis not found or already completed'', m)"
  by (simp add: cancel_analysis_route_def cancel_analysis_absent)

theorem cancel_unknown_id_false_witness:
  "(manager_init :: nat tokens) ''ghost'' = None \<and>
   cancel_analysis (\<lambda>_. Some (Exception ''callback'')) (7::nat) ''ghost'' manager_init
     = (Inr False, manager_init) \<and>
   cancel_analysis_route (\<lambda>_. Some (Exception ''callback'')) (7::nat) (8::nat) ''ghost''
       manager_init
     = (CancelNotFound ''Analysis not found or already completed'', manager_init)"
proof -
  have absent: "(manager_init :: nat tokens) ''ghost'' = None"
    by (simp add: manager_init_def)
  note T = cancel_unknown_id_false [where m = "manager_init :: nat tokens" and aid = "''ghost''"
      and trigger = "\<lambda>_. Some (Exception ''callback'')" and now = 7 and utcnow = "8::nat"]
  from absent T show ?thesis
    by simp
qed

section \<open>Creating a token\<close>

text \<open>
  C5, as the claim states it, fails: on a registry that holds an active (not cancelled) token
  for \<open>a1\<close>, \<open>create_token\<close> for \<open>a1\<close> does not fail; it returns a new token and
  stores it in place of the old one.
\<close>

theorem create_token_duplicate_counterexample:
  "snd (create_token (0::nat) ''a1'' manager_init) ''a1'' = Some (new_token 0 ''a1'') \<and>
   \<not> is_cancelled (new_token (0::nat) ''a1'') \<and>
   fst (create_token (1::nat) ''a1'' (snd (create_token 0 ''a1'' manager_init)))
     = new_token 1 ''a1'' \<and>
   snd (create_token (1::nat) ''a1'' (snd (create_token 0 ''a1'' manager_init))) ''a1''
     = Some (new_token 1 ''a1'') \<and>
   new_token (1::nat) ''a1'' \<noteq> new_token 0 ''a1''"
  by (simp add: create_token_def new_token_def manager_init_def Let_def)

text \<open>
  C5, amended. \<open>create_token\<close> never fails: whatever the registry holds for the id, it
  returns a new token for that id, created now, with \<open>is_cancelled\<close> false and no
  cancellation time, and stores it under the id (replacing a token already there); the other
  entries are unchanged.
\<close>

theorem create_token_always_inserts:
  "create_token now aid m = (new_token now aid, m(aid \<mapsto> new_token now aid)) \<and>
   analysis_id (new_token now aid) = aid \<and>
   \<not> is_cancelled (new_token now aid) \<and>
   created_at (new_token now aid) = now \<and>
   cancelled_at (new_token now aid) = None"
  by (simp add: create_token_def new_token_def Let_def)

section \<open>The registry never loses an entry\<close>

lemma run_op_keeps: "m aid = Some tok \<Longrightarrow> \<exists>tok'. run_op trigger op m aid = Some tok'"
proof (cases op)
  case (CreateToken now a)
  assume "m aid = Some tok"
  with CreateToken show ?thesis
    by (simp add: create_token_def Let_def)
next
  case (CancelAnalysis now a)
  assume "m aid = Some tok"
  with CancelAnalysis show ?thesis
    by (auto simp: cancel_analysis_def split: option.splits prod.splits)
qed

lemma run_ops_keeps: "m aid = Some tok \<Longrightarrow> \<exists>tok'. run_ops trigger ops m aid = Some tok'"
proof (induction ops arbitrary: m tok)
  case Nil
  then show ?case by simp
next
  case (Cons op ops)
  from Cons.prems run_op_keeps [where m = m and aid = aid and tok = tok]
  obtain tok' where "run_op trigger op m aid = Some tok'"
    by blast
  then have "\<exists>tok''. run_ops trigger ops (run_op trigger op m) aid = Some tok''"
    by (rule Cons.IH [where m = "run_op trigger op m" and tok = tok'])
  then show ?case
    by simp
qed

text \<open>
  The manager of the sources has no operation that removes an entry: after any sequence of
  its calls, every id that was registered is still registered. For instance a token created
  for \<open>a1\<close> and then cancelled is still in the registry, cancelled.
\<close>

theorem registry_keeps_every_token:
  "dom m \<subseteq> dom (run_ops trigger ops m) \<and>
   run_ops (\<lambda>_. None) [CreateToken (0::nat) ''a1'', CancelAnalysis 5 ''a1''] manager_init ''a1''
     = Some \<lparr>analysis_id = ''a1'', is_cancelled = True, created_at = 0,
             cancelled_at = Some 5\<rparr>"
proof
  show "dom m \<subseteq> dom (run_ops trigger ops m)"
    using run_ops_keeps [where m = m and trigger = trigger and ops = ops] by blast
  show "run_ops (\<lambda>_. None) [CreateToken (0::nat) ''a1'', CancelAnalysis 5 ''a1''] manager_init ''a1''
     = Some \<lparr>analysis_id = ''a1'', is_cancelled = True, created_at = 0,
             cancelled_at = Some 5\<rparr>"
    by (simp add: create_token_def new_token_def cancel_analysis_def cancel_def manager_init_def
        Let_def)
qed

section \<open>Splitting a log into chunks\<close>

lemma concat_takes: "concat (map (\<lambda>k. take c (drop (k * c) xs)) [0..<m]) = take (m * c) xs"
proof (induction m)
  case 0
  then show ?case by simp
next
  case (Suc m)
  have "take (m * c) xs @ take c (drop (m * c) xs) = take (m * c + c) xs"
    by (simp add: take_add)
  with Suc show ?case by (simp add: add.commute)
qed

lemma range_len_pos:
  assumes "0 < step" and "0 \<le> n"
  shows "int (range_len 0 n step) = (n + step - 1) div step"
proof (cases "n = 0")
  case True
  with assms show ?thesis by (simp add: range_len_def)
next
  case False
  with assms have pos: "0 < n" by simp
  have "(n + step - 1) div step = ((n - 1) + step) div step"
    by (simp add: algebra_simps)
  also have "\<dots> = (n - 1) div step + 1"
    using assms(1) by (simp add: div_add_self2)
  finally have eq: "(n + step - 1) div step = (n - 1) div step + 1" .
  have "0 \<le> (n - 1) div step"
    using pos assms(1) by (simp add: pos_imp_zdiv_nonneg_iff)
  with pos assms eq show ?thesis
    by (simp add: range_len_def)
qed

lemma ceil_div_bounds:
  assumes "0 < (step::int)"
  shows "n \<le> ((n + step - 1) div step) * step" and "((n + step - 1) div step) * step < n + step"
proof -
  let ?a = "n + step - 1"
  have d: "?a = (?a div step) * step + ?a mod step"
    by simp
  have lo: "0 \<le> ?a mod step" and hi: "?a mod step < step"
    using assms by simp_all
  from d hi show "n \<le> (?a div step) * step" by linarith
  from d lo show "(?a div step) * step < n + step" by linarith
qed

lemma range_elem_lt:
  assumes "0 < step" and "0 \<le> n" and "k < range_len 0 n step"
  shows "int k * step < n"
proof -
  from assms have "int k < (n + step - 1) div step"
    using range_len_pos [OF assms(1,2)] by simp
  then have "int k + 1 \<le> (n + step - 1) div step" by simp
  then have "(int k + 1) * step \<le> ((n + step - 1) div step) * step"
    using assms(1) by (simp add: mult_right_mono)
  also have "\<dots> < n + step"
    using assms(1) by (rule ceil_div_bounds(2))
  finally show ?thesis by (simp add: algebra_simps)
qed

lemma range_covers:
  assumes "0 < step" and "0 \<le> n"
  shows "n \<le> int (range_len 0 n step) * step"
  using ceil_div_bounds(1) [OF assms(1), of n] range_len_pos [OF assms] by simp

lemma slice_index_nonneg: "0 \<le> i \<Longrightarrow> slice_index n i = min i n"
  by (simp add: slice_index_def)

lemma py_slice_chunk:
  assumes "0 < cs" and "int k * cs < int (length xs)"
  shows "py_slice xs (int k * cs) (int k * cs + cs) = take (nat cs) (drop (k * nat cs) xs)"
proof -
  let ?n = "int (length xs)"
  let ?i = "int k * cs"
  have nn: "0 \<le> ?i" using assms(1) by simp
  have idx: "nat ?i = k * nat cs"
    by (simp add: nat_mult_distrib)
  have lo: "slice_index ?n ?i = ?i"
    using nn assms(2) by (simp only: slice_index_nonneg min_def) simp
  have "0 \<le> ?i + cs"
    using nn assms(1) by linarith
  then have hi: "slice_index ?n (?i + cs) = min (?i + cs) ?n"
    by (rule slice_index_nonneg)
  have sl: "py_slice xs ?i (?i + cs) = take (nat (min (?i + cs) ?n - ?i)) (drop (k * nat cs) xs)"
    unfolding py_slice_def Let_def lo hi idx ..
  show ?thesis
  proof (cases "?i + cs \<le> ?n")
    case True
    then have "min (?i + cs) ?n - ?i = cs" by linarith
    with sl show ?thesis by simp
  next
    case False
    then have "min (?i + cs) ?n - ?i = ?n - ?i" by linarith
    with sl have "py_slice xs ?i (?i + cs) = take (nat (?n - ?i)) (drop (k * nat cs) xs)"
      by simp
    also have "nat (?n - ?i) = length xs - k * nat cs"
      using idx nn by (simp add: nat_diff_distrib)
    also have "take (length xs - k * nat cs) (drop (k * nat cs) xs) = drop (k * nat cs) xs"
      by simp
    also have "\<dots> = take (nat cs) (drop (k * nat cs) xs)"
    proof -
      from False have "?n - ?i \<le> cs" by linarith
      then have "nat (?n - ?i) \<le> nat cs" by linarith
      then have "length xs - k * nat cs \<le> nat cs"
        using idx nn by (simp add: nat_diff_distrib)
      then show ?thesis by simp
    qed
    finally show ?thesis .
  qed
qed


lemma ceil_div_is_ceiling:
  assumes "0 < (step::int)"
  shows "(n + step - 1) div step = \<lceil>real_of_int n / real_of_int step\<rceil>"
proof -
  let ?q = "(n + step - 1) div step"
  have lo: "n \<le> ?q * step" and hi: "?q * step < n + step"
    using assms by (rule ceil_div_bounds)+
  have "- n div step = - ?q"
  proof (rule int_div_pos_eq [where r = "?q * step - n"])
    show "- n = step * - ?q + (?q * step - n)" by (simp add: algebra_simps)
    show "0 \<le> ?q * step - n" using lo by simp
    show "?q * step - n < step" using hi by simp
  qed
  then show ?thesis
    by (simp add: ceiling_divide_eq_div)
qed

lemma split_log_pos:
  assumes "0 < cs"
  shows "split_log content cs =
    Inr (map (\<lambda>k. take (nat cs) (drop (k * nat cs) content))
          [0..<range_len 0 (int (length content)) cs])"
proof -
  let ?n = "int (length content)"
  have "map (\<lambda>i. py_slice content i (i + cs)) (map (\<lambda>k. 0 + int k * cs) [0..<range_len 0 ?n cs])
      = map (\<lambda>k. take (nat cs) (drop (k * nat cs) content)) [0..<range_len 0 ?n cs]"
  proof (simp only: map_map, rule map_cong [OF refl])
    fix k
    assume "k \<in> set [0..<range_len 0 ?n cs]"
    then have "k < range_len 0 ?n cs" by simp
    with assms have "int k * cs < ?n"
      by (simp add: range_elem_lt)
    with assms show "((\<lambda>i. py_slice content i (i + cs)) \<circ> (\<lambda>k. 0 + int k * cs)) k
        = take (nat cs) (drop (k * nat cs) content)"
      by (simp add: py_slice_chunk)
  qed
  with assms show ?thesis
    by (simp add: split_log_def py_range_def)
qed

lemma split_log_zero: "split_log content 0 = Inl (Exception ''range() arg 3 must not be zero'')"
  by (simp add: split_log_def py_range_def)

lemma split_log_neg: "cs < 0 \<Longrightarrow> split_log content cs = Inr []"
  by (simp add: split_log_def py_range_def range_len_def)

text \<open>
  C8, as the claim states it, fails on the empty content: its length is at most any positive
  chunk size, and the result is no chunk at all, not a single chunk holding the empty
  content.
\<close>

theorem split_log_empty_counterexample:
  "int (length '''') \<le> 100000 \<and> split_log '''' 100000 = Inr [] \<and>
   split_log '''' 100000 \<noteq> Inr ['''']"
  by (simp add: split_log_def py_range_def range_len_def)

text \<open>
  C8, amended. \<open>split_log\<close> is a function of the content and the chunk size alone (it
  reads no state), so equal inputs give equal chunks. For every content and every positive
  chunk size it returns \<open>\<lceil>length / chunk_size\<rceil>\<close> chunks; chunk \<open>k\<close> is the slice of
  \<open>chunk_size\<close> characters from position \<open>k * chunk_size\<close>; the chunks concatenate to
  the content; none is empty, all but the last have exactly \<open>chunk_size\<close> characters.
  Empty content gives no chunk; non-empty content of length at most \<open>chunk_size\<close> gives the
  single chunk equal to the content; 500,000 characters at chunk size 200,000 give three
  chunks of 200,000, 200,000 and 100,000 characters.
\<close>

theorem split_log_slices:
  assumes "0 < chunk_size"
  shows "\<exists>chunks. split_log content chunk_size = Inr chunks \<and>
     concat chunks = content \<and>
     int (length chunks) = \<lceil>real (length content) / real_of_int chunk_size\<rceil> \<and>
     (\<forall>k < length chunks. chunks ! k = take (nat chunk_size) (drop (k * nat chunk_size) content) \<and>
        chunks ! k \<noteq> [] \<and> int (length (chunks ! k)) \<le> chunk_size \<and>
        (Suc k < length chunks \<longrightarrow> int (length (chunks ! k)) = chunk_size)) \<and>
     (content = [] \<longrightarrow> chunks = []) \<and>
     (content \<noteq> [] \<and> int (length content) \<le> chunk_size \<longrightarrow> chunks = [content]) \<and>
     (length content = 500000 \<and> chunk_size = 200000 \<longrightarrow>
        map length chunks = [200000, 200000, 100000])"
proof -
  let ?n = "int (length content)"
  let ?c = "nat chunk_size"
  let ?m = "range_len 0 ?n chunk_size"
  let ?chunks = "map (\<lambda>k. take ?c (drop (k * ?c) content)) [0..<?m]"
  have sl: "split_log content chunk_size = Inr ?chunks"
    using assms by (rule split_log_pos)
  have len: "int ?m = (?n + chunk_size - 1) div chunk_size"
    using assms by (simp add: range_len_pos)
  have cover: "length content \<le> ?m * ?c"
  proof -
    have "?n \<le> int ?m * chunk_size"
      using assms by (simp add: range_covers)
    also have "\<dots> = int (?m * ?c)"
      using assms by simp
    finally show ?thesis by linarith
  qed
  have cat: "concat ?chunks = content"
    using cover by (simp add: concat_takes)
  have below: "k * ?c < length content" if "k < ?m" for k
  proof -
    from that assms have "int k * chunk_size < ?n"
      by (simp add: range_elem_lt)
    moreover have "int k * chunk_size = int (k * ?c)"
      using assms by simp
    ultimately show ?thesis by linarith
  qed
  have each: "?chunks ! k = take ?c (drop (k * ?c) content) \<and> ?chunks ! k \<noteq> [] \<and>
      int (length (?chunks ! k)) \<le> chunk_size \<and>
      (Suc k < length ?chunks \<longrightarrow> int (length (?chunks ! k)) = chunk_size)"
    if "k < length ?chunks" for k
  proof -
    from that have k: "k < ?m" by simp
    then have nth: "?chunks ! k = take ?c (drop (k * ?c) content)" by simp
    from below [OF k] assms have ne: "take ?c (drop (k * ?c) content) \<noteq> []" by simp
    have le: "int (length (take ?c (drop (k * ?c) content))) \<le> chunk_size"
      using assms by simp
    have full: "int (length (take ?c (drop (k * ?c) content))) = chunk_size" if "Suc k < ?m"
    proof -
      from below [OF that] have "k * ?c + ?c < length content" by simp
      then show ?thesis using assms by simp
    qed
    from nth ne le full show ?thesis by simp
  qed
  have empty: "?chunks = []" if "content = []"
    using that by (simp add: range_len_def)
  have single: "?chunks = [content]" if "content \<noteq> []" "?n \<le> chunk_size"
  proof -
    from that have "0 \<le> ?n - 1" and "?n - 1 < chunk_size"
      by (simp_all add: Suc_le_eq)
    then have "(?n - 1) div chunk_size = 0"
      by (rule div_pos_pos_trivial)
    moreover from that have "0 < ?n" by simp
    ultimately have one: "?m = 1"
      using assms by (simp add: range_len_def)
    from that(2) have "length content \<le> ?c" by linarith
    with one show ?thesis by simp
  qed
  have big: "map length ?chunks = [200000, 200000, 100000]"
    if "length content = 500000" "chunk_size = 200000"
  proof -
    from that have "?m = 3" by (simp add: range_len_def)
    moreover have "[0..<3] = [0, 1, 2]" by (simp add: upt_rec)
    ultimately show ?thesis using that by simp
  qed
  show ?thesis
  proof (rule exI [of _ ?chunks], intro conjI)
    show "split_log content chunk_size = Inr ?chunks" by (rule sl)
    show "concat ?chunks = content" by (rule cat)
    show "int (length ?chunks) = \<lceil>real (length content) / real_of_int chunk_size\<rceil>"
      using len ceil_div_is_ceiling [OF assms, of ?n] by simp
    show "\<forall>k < length ?chunks.
        ?chunks ! k = take ?c (drop (k * ?c) content) \<and> ?chunks ! k \<noteq> [] \<and>
        int (length (?chunks ! k)) \<le> chunk_size \<and>
        (Suc k < length ?chunks \<longrightarrow> int (length (?chunks ! k)) = chunk_size)"
      using each by blast
    show "content = [] \<longrightarrow> ?chunks = []"
      using empty by blast
    show "content \<noteq> [] \<and> ?n \<le> chunk_size \<longrightarrow> ?chunks = [content]"
      using single by blast
    show "length content = 500000 \<and> chunk_size = 200000 \<longrightarrow>
        map length ?chunks = [200000, 200000, 100000]"
      using big by blast
  qed
qed


theorem split_log_slices_witness:
  "(\<exists>chunks. split_log (replicate 500000 (CHR ''x'')) 200000 = Inr chunks \<and>
      concat chunks = replicate 500000 (CHR ''x'') \<and>
      map length chunks = [200000, 200000, 100000]) \<and>
   (\<exists>chunks. split_log ''abc'' 7 = Inr chunks \<and> chunks = [''abc'']) \<and>
   (\<exists>chunks. split_log '''' 7 = Inr chunks \<and> chunks = []) \<and>
   (\<exists>chunks. split_log ''abcdefg'' 3 = Inr chunks \<and> int (length chunks) = 3 \<and>
      concat chunks = ''abcdefg'')"
proof (intro conjI)
  have big: "(0::int) < 200000" by simp
  have len: "length (replicate 500000 (CHR ''x'')) = 500000" by (rule length_replicate)
  from split_log_slices [OF big, of "replicate 500000 (CHR ''x'')"] obtain chunks where
    a: "split_log (replicate 500000 (CHR ''x'')) 200000 = Inr chunks" and
    b: "concat chunks = replicate 500000 (CHR ''x'')" and
    c: "length (replicate 500000 (CHR ''x'')) = 500000 \<and> (200000::int) = 200000 \<longrightarrow>
        map length chunks = [200000, 200000, 100000]"
    by (elim exE conjE)
  from c len have "map length chunks = [200000, 200000, 100000]"
    by (simp only: simp_thms)
  with a b
  show "\<exists>chunks. split_log (replicate 500000 (CHR ''x'')) 200000 = Inr chunks \<and>
      concat chunks = replicate 500000 (CHR ''x'') \<and>
      map length chunks = [200000, 200000, 100000]"
    by (intro exI [of _ chunks] conjI)
next
  have seven: "(0::int) < 7" by simp
  have fits: "''abc'' \<noteq> [] \<and> int (length ''abc'') \<le> 7" by simp
  from split_log_slices [OF seven, of "''abc''"] fits
  show "\<exists>chunks. split_log ''abc'' 7 = Inr chunks \<and> chunks = [''abc'']"
    by blast
next
  have seven: "(0::int) < 7" by simp
  from split_log_slices [OF seven, of "''''"]
  show "\<exists>chunks. split_log '''' 7 = Inr chunks \<and> chunks = []"
    by blast
next
  have three: "(0::int) < 3" by simp
  have ceil: "\<lceil>real (length ''abcdefg'') / real_of_int 3\<rceil> = 3" by simp
  from split_log_slices [OF three, of "''abcdefg''"] ceil
  show "\<exists>chunks. split_log ''abcdefg'' 3 = Inr chunks \<and> int (length chunks) = 3 \<and>
      concat chunks = ''abcdefg''"
    by auto
qed

section \<open>Checking for cancellation inside a stream\<close>

lemma quiet_run:
  "chars_since_check s + int (length (concat (map fst quiet))) < check_interval s \<Longrightarrow>
   stream_with_cancellation s (quiet @ after) =
     (case stream_with_cancellation
             (s\<lparr>chars_since_check := chars_since_check s + int (length (concat (map fst quiet)))\<rparr>)
             after of
        (acts, r, s') \<Rightarrow> (map (Yielded \<circ> fst) quiet @ acts, r, s'))"
proof (induction quiet arbitrary: s)
  case Nil
  then show ?case by (simp split: prod.splits)
next
  case (Cons q quiet)
  obtain chunk chk where q: "q = (chunk, chk)" by (cases q)
  let ?s1 = "s\<lparr>chars_since_check := chars_since_check s + int (length chunk)\<rparr>"
  from Cons.prems q have below: "chars_since_check s + int (length chunk) < check_interval s"
    by simp
  then have step: "stream_step s chunk chk = StepYield False ?s1"
    by (simp add: stream_step_def Let_def)
  from Cons.prems q
  have "chars_since_check ?s1 + int (length (concat (map fst quiet))) < check_interval ?s1"
    by simp
  from Cons.IH [OF this] q step show ?case
    by (simp add: add.assoc split: prod.splits)
qed

text \<open>
  C9. A new \<open>StreamingAnalyzer\<close> has interval 100 and counter 0. From any state (for
  instance right after a check, when the counter is 0): as long as the characters accumulated
  since then stay below the interval, no check is made, every fragment is passed on, and the
  counter holds their number, whatever the cancellation state is. At the fragment with which
  the accumulated number reaches the interval, \<open>check_cancelled\<close> is called, before the
  fragment is passed on: if it returns, the counter is reset to 0 and the stream goes on from
  there; if it raises, the stream ends with that exception and the fragment is not passed on.
\<close>

theorem check_every_interval:
  assumes "chars_since_check s + int (length (concat (map fst quiet))) < check_interval s"
    and "check_interval s \<le>
           chars_since_check s + int (length (concat (map fst quiet))) + int (length chunk)"
  shows "check_interval StreamingAnalyzer_init = 100 \<and>
     chars_since_check StreamingAnalyzer_init = 0 \<and>
     stream_with_cancellation s quiet =
       (map (Yielded \<circ> fst) quiet, None,
        s\<lparr>chars_since_check := chars_since_check s + int (length (concat (map fst quiet)))\<rparr>) \<and>
     stream_with_cancellation s (quiet @ (chunk, None) # rest) =
       (case stream_with_cancellation (s\<lparr>chars_since_check := 0\<rparr>) rest of
          (acts, r, s') \<Rightarrow> (map (Yielded \<circ> fst) quiet @ Checked # Yielded chunk # acts, r, s')) \<and>
     stream_with_cancellation s (quiet @ (chunk, Some e) # rest) =
       (map (Yielded \<circ> fst) quiet @ [Checked], Some e,
        s\<lparr>chars_since_check :=
             chars_since_check s + int (length (concat (map fst quiet))) + int (length chunk)\<rparr>)"
proof (intro conjI)
  let ?acc = "chars_since_check s + int (length (concat (map fst quiet)))"
  let ?s1 = "s\<lparr>chars_since_check := ?acc\<rparr>"
  show "check_interval StreamingAnalyzer_init = 100"
    by (simp add: StreamingAnalyzer_init_def)
  show "chars_since_check StreamingAnalyzer_init = 0"
    by (simp add: StreamingAnalyzer_init_def)
  show "stream_with_cancellation s quiet = (map (Yielded \<circ> fst) quiet, None, ?s1)"
    using quiet_run [OF assms(1), of "[]"] by simp
  have pass: "stream_step ?s1 chunk None = StepYield True (s\<lparr>chars_since_check := 0\<rparr>)"
    using assms(2) by (simp add: stream_step_def Let_def)
  show "stream_with_cancellation s (quiet @ (chunk, None) # rest) =
       (case stream_with_cancellation (s\<lparr>chars_since_check := 0\<rparr>) rest of
          (acts, r, s') \<Rightarrow> (map (Yielded \<circ> fst) quiet @ Checked # Yielded chunk # acts, r, s'))"
    using quiet_run [OF assms(1), of "(chunk, None) # rest"] pass
    by (simp split: prod.splits)
  have stop: "stream_step ?s1 chunk (Some e) =
      StepRaise e (s\<lparr>chars_since_check := ?acc + int (length chunk)\<rparr>)"
    using assms(2) by (simp add: stream_step_def Let_def)
  show "stream_with_cancellation s (quiet @ (chunk, Some e) # rest) =
       (map (Yielded \<circ> fst) quiet @ [Checked], Some e,
        s\<lparr>chars_since_check := ?acc + int (length chunk)\<rparr>)"
    using quiet_run [OF assms(1), of "(chunk, Some e) # rest"] stop
    by simp
qed

theorem check_every_interval_witness:
  "stream_with_cancellation StreamingAnalyzer_init
     ([(replicate 60 (CHR ''x''), None), (replicate 30 (CHR ''y''), Some CancelledError)] @
      (replicate 10 (CHR ''z''), None) # [(''tail'', None)]) =
     ([Yielded (replicate 60 (CHR ''x'')), Yielded (replicate 30 (CHR ''y'')), Checked,
       Yielded (replicate 10 (CHR ''z'')), Yielded ''tail''],
      None, \<lparr>check_interval = 100, chars_since_check = 4\<rparr>) \<and>
   stream_with_cancellation StreamingAnalyzer_init
     ([(replicate 60 (CHR ''x''), None), (replicate 30 (CHR ''y''), Some CancelledError)] @
      (replicate 10 (CHR ''z''), Some CancelledError) # [(''tail'', None)]) =
     ([Yielded (replicate 60 (CHR ''x'')), Yielded (replicate 30 (CHR ''y'')), Checked],
      Some CancelledError, \<lparr>check_interval = 100, chars_since_check = 100\<rparr>)"
proof -
  let ?s = StreamingAnalyzer_init
  let ?quiet = "[(replicate 60 (CHR ''x''), None), (replicate 30 (CHR ''y''), Some CancelledError)]"
  let ?chunk = "replicate 10 (CHR ''z'')"
  have below: "chars_since_check ?s + int (length (concat (map fst ?quiet))) < check_interval ?s"
    by (simp add: StreamingAnalyzer_init_def)
  have reach: "check_interval ?s \<le>
      chars_since_check ?s + int (length (concat (map fst ?quiet))) + int (length ?chunk)"
    by (simp add: StreamingAnalyzer_init_def)
  have tail: "stream_with_cancellation (?s\<lparr>chars_since_check := 0\<rparr>) [(''tail'', None)] =
      ([Yielded ''tail''], None, \<lparr>check_interval = 100, chars_since_check = 4\<rparr>)"
    by (simp add: StreamingAnalyzer_init_def stream_step_def Let_def)
  from check_every_interval [OF below reach, of "[(''tail'', None)]" CancelledError] tail
  show ?thesis
    by (simp add: StreamingAnalyzer_init_def)
qed

section \<open>Events of the streaming endpoint\<close>

lemma handler_no_progress: "fst (handler e) ! i \<noteq> Progress p" if "i < length (fst (handler e))"
  using that by (cases e) simp_all

lemma handler_content: "count_content (fst (handler e)) = 0"
  by (cases e) (simp_all add: count_content_def)

lemma count_content_Cons:
  "count_content (ev # evs) = (if is_content ev then 1 else 0) + count_content evs"
  by (simp add: count_content_def)

lemma consume_progress:
  "i < length (fst (consume n xs fin)) \<Longrightarrow> fst (consume n xs fin) ! i = Progress p \<Longrightarrow>
     progress_percentage p = min (10 * (n + count_content (take i (fst (consume n xs fin))))) 90 \<and>
     current_chunk p = n + count_content (take i (fst (consume n xs fin))) \<and>
     total_chunks p = 1"
proof (induction xs arbitrary: n i)
  case Nil
  then show ?case
    by (cases fin) (simp_all add: handler_no_progress)
next
  case (Cons x xs)
  obtain chunk st where x: "x = (chunk, st)" by (cases x)
  show ?case
  proof (cases st)
    case (StatusRaises e)
    with Cons.prems x show ?thesis
      by (cases i) (simp_all add: Let_def handler_no_progress)
  next
    case (Status u)
    show ?thesis
    proof (cases u)
      case None
      with Status x have ev: "fst (consume n (x # xs) fin) = Content chunk # fst (consume (n + 1) xs fin)"
        by (simp add: Let_def)
      show ?thesis
      proof (cases i)
        case 0
        with Cons.prems ev show ?thesis by simp
      next
        case (Suc j)
        with Cons.prems ev have "j < length (fst (consume (n + 1) xs fin))"
          and "fst (consume (n + 1) xs fin) ! j = Progress p"
          by simp_all
        from Cons.IH [OF this] Suc ev show ?thesis
          by (simp add: count_content_Cons algebra_simps)
      qed
    next
      case (Some usage)
      let ?p = "\<lparr>progress_percentage = min ((n + 1) * 10) 90, current_chunk = n + 1,
                  total_chunks = 1, input_tokens = or_zero (api_input_tokens usage),
                  output_tokens = or_zero (api_output_tokens usage)\<rparr>"
      from Some Status x
      have ev: "fst (consume n (x # xs) fin) =
          Content chunk # Progress ?p # fst (consume (n + 1) xs fin)"
        by (simp add: Let_def)
      show ?thesis
      proof (cases i)
        case 0
        with Cons.prems ev show ?thesis by simp
      next
        case (Suc j)
        show ?thesis
        proof (cases j)
          case 0
          with Suc Cons.prems ev have "p = ?p" by simp
          with Suc 0 ev show ?thesis
            by (simp add: count_content_Cons count_content_def algebra_simps)
        next
          case (Suc k)
          with \<open>i = Suc j\<close> Cons.prems ev have "k < length (fst (consume (n + 1) xs fin))"
            and "fst (consume (n + 1) xs fin) ! k = Progress p"
            by simp_all
          from Cons.IH [OF this] Suc \<open>i = Suc j\<close> ev show ?thesis
            by (simp add: count_content_Cons algebra_simps)
        qed
      qed
    qed
  qed
qed


lemma handler_percentages: "percentages (fst (handler e)) = []"
  by (cases e) simp_all

lemma consume_percentages:
  "sorted (percentages (fst (consume n xs fin))) \<and>
   (\<forall>q \<in> set (percentages (fst (consume n xs fin))). min (10 * (n + 1)) 90 \<le> q \<and> q \<le> 90)"
proof (induction xs arbitrary: n)
  case Nil
  then show ?case
    by (cases fin) (simp_all add: handler_percentages)
next
  case (Cons x xs)
  obtain chunk st where x: "x = (chunk, st)" by (cases x)
  note IH = Cons.IH [of "n + 1"]
  show ?case
  proof (cases st)
    case (StatusRaises e)
    with x show ?thesis by (simp add: Let_def handler_percentages)
  next
    case (Status u)
    show ?thesis
    proof (cases u)
      case None
      with Status x IH show ?thesis
        by (fastforce simp: Let_def)
    next
      case (Some usage)
      with Status x IH show ?thesis
        by (fastforce simp: Let_def algebra_simps)
    qed
  qed
qed

lemma generate_Start:
  "\<exists>rest. fst (generate cfg aid engine mode provider) = Start aid # rest \<and>
     (rest = [] \<or> (\<exists>e. rest = fst (handler e)) \<or>
      (\<exists>xs fin. rest = fst (consume 0 xs fin)))"
proof (cases engine)
  case None
  then show ?thesis by (simp add: generate_def)
next
  case (Some run)
  then have "fst (generate cfg aid engine mode provider) =
        Start aid # fst (handler (not_a_valid mode ''AnalysisMode'')) \<or>
      fst (generate cfg aid engine mode provider) =
        Start aid # fst (handler (not_a_valid provider ''ModelProvider'')) \<or>
      fst (generate cfg aid engine mode provider) =
        Start aid # fst (consume 0 (chunks run) (ending run))"
    by (simp add: generate_def Let_def)
  then show ?thesis by blast
qed

lemma rest_progress:
  assumes "rest = [] \<or> (\<exists>e. rest = fst (handler e)) \<or>
      (\<exists>xs fin. rest = fst (consume 0 xs fin))"
    and "i < length rest" and "rest ! i = Progress p"
  shows "progress_percentage p = min (10 * count_content (take i rest)) 90 \<and>
     current_chunk p = count_content (take i rest) \<and> total_chunks p = 1"
  using assms consume_progress [where i = i and n = 0 and p = p]
    handler_no_progress [where i = i and p = p]
  by auto

lemma rest_percentages:
  assumes "rest = [] \<or> (\<exists>e. rest = fst (handler e)) \<or>
      (\<exists>xs fin. rest = fst (consume 0 xs fin))"
  shows "sorted (percentages rest) \<and> (\<forall>q \<in> set (percentages rest). q \<le> 90)"
  using assms consume_percentages [of 0] handler_percentages
  by auto

text \<open>
  C10. In the event sequence of the streaming endpoint, every \<open>Progress\<close> event reports
  \<open>progress_percentage = min (10 * k) 90\<close>, where \<open>k\<close> is the number of \<open>Content\<close>
  events before it, and \<open>total_chunks = 1\<close>; the reported percentages are non-decreasing
  along the sequence and none exceeds 90.
\<close>

theorem progress_percentage_formula:
  assumes "analyze_with_cancellation cfg use_mock aid engine content log_type mode provider
      = EventStream evs r"
  shows "(\<forall>i p. i < length evs \<and> evs ! i = Progress p \<longrightarrow>
            progress_percentage p = min (10 * count_content (take i evs)) 90 \<and>
            total_chunks p = 1) \<and>
         sorted (percentages evs) \<and> (\<forall>q \<in> set (percentages evs). q \<le> 90)"
proof -
  from assms have gen: "fst (generate cfg aid engine mode provider) = evs"
    by (auto simp: analyze_with_cancellation_def split: if_splits prod.splits)
  from generate_Start [of cfg aid engine mode provider] gen obtain rest where
    evs: "evs = Start aid # rest" and
    rest: "rest = [] \<or> (\<exists>e. rest = fst (handler e)) \<or>
      (\<exists>xs fin. rest = fst (consume 0 xs fin))"
    by blast
  have "progress_percentage p = min (10 * count_content (take i evs)) 90 \<and> total_chunks p = 1"
    if "i < length evs" and "evs ! i = Progress p" for i p
  proof (cases i)
    case 0
    with that evs show ?thesis by simp
  next
    case (Suc j)
    with that evs have "j < length rest" and "rest ! j = Progress p" by simp_all
    from rest_progress [OF rest this] Suc evs show ?thesis
      by (simp add: count_content_Cons)
  qed
  moreover from rest_percentages [OF rest] evs
  have "sorted (percentages evs) \<and> (\<forall>q \<in> set (percentages evs). q \<le> 90)"
    by simp
  ultimately show ?thesis by blast
qed


theorem progress_percentage_formula_witness:
  "analyze_with_cancellation
     \<lparr>AnalysisMode_values = [''quick'', ''intelligent'', ''large_file'', ''max_token''],
      ModelProvider_values = [''anthropic'', ''openai'']\<rparr>
     False ''id-1''
     (Some \<lparr>chunks = [(''ab'', Status (Some \<lparr>api_input_tokens = Some 7,
                                                  api_output_tokens = None\<rparr>)),
                        (''cd'', Status None),
                        (''ef'', Status (Some \<lparr>api_input_tokens = Some 7,
                                                  api_output_tokens = Some 4\<rparr>))],
            ending = StopAsyncIteration\<rparr>)
     ''log text'' ''anr'' ''quick'' ''anthropic''
     = EventStream
         [Start ''id-1'', Content ''ab'',
          Progress \<lparr>progress_percentage = 10, current_chunk = 1, total_chunks = 1,
                    input_tokens = 7, output_tokens = 0\<rparr>,
          Content ''cd'', Content ''ef'',
          Progress \<lparr>progress_percentage = 30, current_chunk = 3, total_chunks = 1,
                    input_tokens = 7, output_tokens = 4\<rparr>,
          Complete]
         None \<and>
   progress_percentage \<lparr>progress_percentage = 30, current_chunk = 3, total_chunks = 1,
                    input_tokens = 7, output_tokens = 4\<rparr>
     = min (10 * count_content (take 5
         [Start ''id-1'', Content ''ab'',
          Progress \<lparr>progress_percentage = 10, current_chunk = 1, total_chunks = 1,
                    input_tokens = 7, output_tokens = 0\<rparr>,
          Content ''cd'', Content ''ef'',
          Progress \<lparr>progress_percentage = 30, current_chunk = 3, total_chunks = 1,
                    input_tokens = 7, output_tokens = 4\<rparr>,
          Complete])) 90 \<and>
   sorted (percentages
         [Start ''id-1'', Content ''ab'',
          Progress \<lparr>progress_percentage = 10, current_chunk = 1, total_chunks = 1,
                    input_tokens = 7, output_tokens = 0\<rparr>,
          Content ''cd'', Content ''ef'',
          Progress \<lparr>progress_percentage = 30, current_chunk = 3, total_chunks = 1,
                    input_tokens = 7, output_tokens = 4\<rparr>,
          Complete])"
proof -
  let ?cfg = "\<lparr>AnalysisMode_values = [''quick'', ''intelligent'', ''large_file'', ''max_token''],
      ModelProvider_values = [''anthropic'', ''openai'']\<rparr>"
  let ?run = "\<lparr>chunks = [(''ab'', Status (Some \<lparr>api_input_tokens = Some 7,
                                                  api_output_tokens = None\<rparr>)),
                        (''cd'', Status None),
                        (''ef'', Status (Some \<lparr>api_input_tokens = Some 7,
                                                  api_output_tokens = Some 4\<rparr>))],
            ending = StopAsyncIteration\<rparr>"
  let ?p = "\<lparr>progress_percentage = 30, current_chunk = 3, total_chunks = 1,
                    input_tokens = 7, output_tokens = 4\<rparr>"
  let ?evs = "[Start ''id-1'', Content ''ab'',
          Progress \<lparr>progress_percentage = 10, current_chunk = 1, total_chunks = 1,
                    input_tokens = 7, output_tokens = 0\<rparr>,
          Content ''cd'', Content ''ef'', Progress ?p, Complete]"
  have resp: "analyze_with_cancellation ?cfg False ''id-1'' (Some ?run)
      ''log text'' ''anr'' ''quick'' ''anthropic'' = EventStream ?evs None"
    by (simp add: analyze_with_cancellation_def generate_def Let_def or_zero_def)
  have at: "5 < length ?evs \<and> ?evs ! 5 = Progress ?p"
    by simp
  note T = progress_percentage_formula [OF resp]
  from T have "5 < length ?evs \<and> ?evs ! 5 = Progress ?p \<longrightarrow>
      progress_percentage ?p = min (10 * count_content (take 5 ?evs)) 90 \<and> total_chunks ?p = 1"
    by blast
  with at have "progress_percentage ?p = min (10 * count_content (take 5 ?evs)) 90"
    by blast
  moreover from T have "sorted (percentages ?evs)"
    by blast
  ultimately show ?thesis
    using resp by blast
qed

lemma handler_events:
  "(snd (handler e) = None \<longrightarrow>
      fst (handler e) \<noteq> [] \<and> is_terminal (last (fst (handler e))) \<and>
      length (filter is_terminal (fst (handler e))) = 1) \<and>
   (snd (handler e) \<noteq> None \<longrightarrow> fst (handler e) = []) \<and>
   filter is_start (fst (handler e)) = []"
  by (cases e) simp_all

lemma consume_events:
  "filter is_start (fst (consume n xs fin)) = [] \<and>
   (snd (consume n xs fin) = None \<longrightarrow>
      fst (consume n xs fin) \<noteq> [] \<and> is_terminal (last (fst (consume n xs fin))) \<and>
      length (filter is_terminal (fst (consume n xs fin))) = 1) \<and>
   (snd (consume n xs fin) \<noteq> None \<longrightarrow> filter is_terminal (fst (consume n xs fin)) = [])"
proof (induction xs arbitrary: n)
  case Nil
  show ?case
  proof (cases fin)
    case StopAsyncIteration
    then show ?thesis by simp
  next
    case (Raises e)
    then show ?thesis by (cases e) simp_all
  qed
next
  case (Cons x xs)
  obtain chunk st where x: "x = (chunk, st)" by (cases x)
  note IH = Cons.IH [of "n + 1"]
  show ?case
  proof (cases st)
    case (StatusRaises e)
    with x show ?thesis by (cases e) (simp_all add: Let_def)
  next
    case (Status u)
    with x IH show ?thesis
      by (cases u) (simp_all add: Let_def)
  qed
qed

lemma consume_cancelled:
  "list_all (\<lambda>x. status_returns (snd x)) xs \<Longrightarrow>
   snd (consume n xs (Raises (CancellationException msg))) = None \<and>
   last (fst (consume n xs (Raises (CancellationException msg)))) = Cancelled \<and>
   filter is_terminal (fst (consume n xs (Raises (CancellationException msg)))) = [Cancelled] \<and>
   content_of (fst (consume n xs (Raises (CancellationException msg)))) = map fst xs"
proof (induction xs arbitrary: n)
  case Nil
  then show ?case by simp
next
  case (Cons x xs)
  obtain chunk st where x: "x = (chunk, st)" by (cases x)
  from Cons.prems have "list_all (\<lambda>x. status_returns (snd x)) xs" by simp
  note IH = Cons.IH [OF this, of "n + 1"]
  have ne: "fst (consume (n + 1) xs (Raises (CancellationException msg))) \<noteq> []"
    using consume_events [of "n + 1" xs "Raises (CancellationException msg)"] IH by simp
  from Cons.prems x obtain u where "st = Status u"
    by (cases st) simp_all
  with x IH ne show ?case
    by (cases u) (simp_all add: Let_def)
qed

text \<open>
  The clause \<open>except CancellationException\<close>: when the engine's stream raises that
  exception after any number of fragments, for a valid mode and provider and with
  \<open>get_status\<close> returning normally, the event sequence starts with \<open>Start\<close>, ends with
  \<open>Cancelled\<close>, which is its only terminal event, and its \<open>Content\<close> events are exactly
  the fragments produced before.
\<close>

theorem cancelled_not_error:
  assumes "mode \<in> set (AnalysisMode_values cfg)"
    and "provider = [] \<or> provider \<in> set (ModelProvider_values cfg)"
    and "list_all (\<lambda>x. status_returns (snd x)) (chunks run)"
    and "ending run = Raises (CancellationException msg)"
    and "content \<noteq> []"
  shows "\<exists>evs. analyze_with_cancellation cfg False aid (Some run) content log_type mode provider
           = EventStream evs None \<and>
         hd evs = Start aid \<and>
         last evs = Cancelled \<and>
         filter is_terminal evs = [Cancelled] \<and>
         \<not> list_ex is_error evs \<and>
         content_of evs = map fst (chunks run)"
proof -
  let ?rest = "consume 0 (chunks run) (Raises (CancellationException msg))"
  from assms have gen: "generate cfg aid (Some run) mode provider = (Start aid # fst ?rest, snd ?rest)"
    by (auto simp: generate_def Let_def)
  note c = consume_cancelled [OF assms(3), of 0]
  have ne: "fst ?rest \<noteq> []"
    using consume_events [of 0 "chunks run" "Raises (CancellationException msg)"] c by simp
  let ?evs = "Start aid # fst ?rest"
  have resp: "analyze_with_cancellation cfg False aid (Some run) content log_type mode provider
           = EventStream ?evs None"
    using assms(5) gen c by (simp add: analyze_with_cancellation_def)
  have terminal: "filter is_terminal ?evs = [Cancelled]"
    using c by simp
  have "\<not> list_ex is_error ?evs"
  proof
    assume "list_ex is_error ?evs"
    then obtain ev where mem: "ev \<in> set ?evs" and err: "is_error ev"
      by (auto simp: list_ex_iff)
    from err have "is_terminal ev"
      by (cases ev) simp_all
    with mem have "ev \<in> set (filter is_terminal ?evs)"
      by (simp only: set_filter) simp
    with terminal err show False by simp
  qed
  with resp terminal c ne show ?thesis
    by (intro exI [of _ ?evs]) simp
qed

theorem cancelled_not_error_example:
  "analyze_with_cancellation
     \<lparr>AnalysisMode_values = [''quick'', ''intelligent'', ''large_file'', ''max_token''],
      ModelProvider_values = [''anthropic'', ''openai'']\<rparr>
     False ''id-2''
     (Some \<lparr>chunks = [(''ab'', Status None),
                        (''cd'', Status (Some \<lparr>api_input_tokens = None,
                                                  api_output_tokens = Some 4\<rparr>))],
            ending = Raises (CancellationException ''cancelled by user'')\<rparr>)
     ''log text'' ''anr'' ''quick'' ''''
     = EventStream
         [Start ''id-2'', Content ''ab'', Content ''cd'',
          Progress \<lparr>progress_percentage = 20, current_chunk = 2, total_chunks = 1,
                    input_tokens = 0, output_tokens = 4\<rparr>,
          Cancelled]
         None \<and>
   (\<exists>evs. analyze_with_cancellation
       \<lparr>AnalysisMode_values = [''quick'', ''intelligent'', ''large_file'', ''max_token''],
        ModelProvider_values = [''anthropic'', ''openai'']\<rparr>
       False ''id-2''
       (Some \<lparr>chunks = [(''ab'', Status None),
                          (''cd'', Status (Some \<lparr>api_input_tokens = None,
                                                    api_output_tokens = Some 4\<rparr>))],
              ending = Raises (CancellationException ''cancelled by user'')\<rparr>)
       ''log text'' ''anr'' ''quick'' ''''
       = EventStream evs None \<and>
     hd evs = Start ''id-2'' \<and> last evs = Cancelled \<and>
     filter is_terminal evs = [Cancelled] \<and> \<not> list_ex is_error evs \<and>
     content_of evs = [''ab'', ''cd''])"
proof -
  let ?cfg = "\<lparr>AnalysisMode_values = [''quick'', ''intelligent'', ''large_file'', ''max_token''],
      ModelProvider_values = [''anthropic'', ''openai'']\<rparr>"
  let ?run = "\<lparr>chunks = [(''ab'', Status None),
                        (''cd'', Status (Some \<lparr>api_input_tokens = None,
                                                  api_output_tokens = Some 4\<rparr>))],
            ending = Raises (CancellationException ''cancelled by user'')\<rparr>"
  have m: "''quick'' \<in> set (AnalysisMode_values ?cfg)" by simp
  have p: "'''' = [] \<or> '''' \<in> set (ModelProvider_values ?cfg)" by simp
  have s: "list_all (\<lambda>x. status_returns (snd x)) (chunks ?run)" by simp
  have e: "ending ?run = Raises (CancellationException ''cancelled by user'')" by simp
  have c: "''log text'' \<noteq> []" by simp
  have direct: "analyze_with_cancellation ?cfg False ''id-2'' (Some ?run)
      ''log text'' ''anr'' ''quick'' ''''
     = EventStream
         [Start ''id-2'', Content ''ab'', Content ''cd'',
          Progress \<lparr>progress_percentage = 20, current_chunk = 2, total_chunks = 1,
                    input_tokens = 0, output_tokens = 4\<rparr>,
          Cancelled]
         None"
    by (simp add: analyze_with_cancellation_def generate_def Let_def or_zero_def)
  from cancelled_not_error [OF m p s e c, of "''id-2''" "''anr''"] direct
  show ?thesis
    by simp
qed





text \<open>
  With an engine configured, whenever \<open>generate\<close> ends without an exception leaving it,
  its events are one \<open>Start\<close>, first, and one terminal event, last.
\<close>

lemma generate_protocol:
  assumes "snd (generate cfg aid (Some run) mode provider) = None"
  shows "one_start_one_terminal (fst (generate cfg aid (Some run) mode provider))"
proof -
  let ?rest = "if mode \<notin> set (AnalysisMode_values cfg)
      then handler (not_a_valid mode ''AnalysisMode'')
      else if provider \<noteq> [] \<and> provider \<notin> set (ModelProvider_values cfg)
      then handler (not_a_valid provider ''ModelProvider'')
      else consume 0 (chunks run) (ending run)"
  have g: "generate cfg aid (Some run) mode provider = (Start aid # fst ?rest, snd ?rest)"
    by (simp add: generate_def Let_def)
  with assms have fin: "snd ?rest = None" by simp
  have "snd ?rest = None \<longrightarrow> fst ?rest \<noteq> [] \<and> is_terminal (last (fst ?rest)) \<and>
      length (filter is_terminal (fst ?rest)) = 1"
    using handler_events consume_events by simp
  moreover have "filter is_start (fst ?rest) = []"
    using handler_events consume_events by simp
  ultimately show ?thesis
    using fin by (simp only: g fst_conv one_start_one_terminal_def) simp
qed

text \<open>
  C1. On the path where no engine is configured the event sequence is the \<open>Start\<close> event
  alone: the \<open>return\<close> of the mock implementation's response ends the generator, and no
  terminal event is yielded. So the sequence of a request with non-empty content, mock mode
  off and no engine does not have one \<open>Start\<close> first and one terminal event last.
\<close>

theorem no_engine_only_start:
  "generate cfg aid None mode provider = ([Start aid], None) \<and>
   analyze_with_cancellation cfg False aid None (c # content) log_type mode provider
     = EventStream [Start aid] None \<and>
   filter is_terminal [Start aid] = [] \<and>
   \<not> one_start_one_terminal [Start aid]"
  by (simp add: generate_def analyze_with_cancellation_def one_start_one_terminal_def)

text \<open>
  C7. A request whose content is empty is answered with the JSON error
  \<open>Content is required\<close> and status 400, whatever the other parameters, the mock switch
  and the engine are: the response is not an event stream, so no \<open>Start\<close> event is
  produced and neither the engine nor the mock implementation is called. That response is
  given for empty content only.
\<close>

theorem empty_content_rejected:
  "analyze_with_cancellation cfg use_mock aid engine [] log_type mode provider
     = JsonError 400 ''Content is required'' \<and>
   (analyze_with_cancellation cfg use_mock aid engine content log_type mode provider
     = JsonError 400 ''Content is required'') = (content = [])"
  by (auto simp: analyze_with_cancellation_def split: prod.splits)

section \<open>Token cleanup on every terminal path\<close>






end
